theory Spec2Isabelle
  imports Main "HOL-Library.AList"
begin

section \<open>Data model\<close>

text \<open>
  Values thrown and caught in the client. \<open>query\<close> tests \<open>error.length\<close> on what it
  catches, so a thrown value is either a single error object or an array of errors.
\<close>

datatype jserror = Error string | ErrorArray "jserror list"

text \<open>
  A \<open>Uri\<close> object; the client reads its canonical string as \<open>uri.uri\<close>.
\<close>

record Uri =
  uri :: string

text \<open>
  Modelled from the spec: \<open>Uri.equals\<close> is declared in the core package's types, which
  are not among the sources; it is structural equality on the canonical form.
\<close>

definition Uri_equals :: "Uri \<Rightarrow> Uri \<Rightarrow> bool" where
  "Uri_equals a b = (uri a = uri b)"

text \<open>
  Modelled from the spec: the \<open>Uri\<close> constructor is not among the sources. Parsing
  fails with \<open>MalformedUri\<close> when the text lacks an authority; the normalisation of
  casing and trailing separators is left out, so the canonical form is the text itself.
  The functions below take the constructor as a parameter \<open>newUri\<close>; this instance is
  used to run them on concrete tables.
\<close>

definition Uri_new :: "string \<Rightarrow> jserror + Uri" where
  "Uri_new text =
     (if takeWhile (\<lambda>c. c \<noteq> CHR ''/'') text = [] \<or> CHR ''/'' \<notin> set text
      then Inl (Error ''MalformedUri'')
      else Inr \<lparr>uri = text\<rparr>)"

record PluginManifest =
  schema :: string
  implemented :: "Uri list"
  imported :: "Uri list"

text \<open>The plugin instance made by \<open>factory\<close> is kept abstract (\<open>'p\<close>).\<close>

record 'p PluginPackage =
  factory :: 'p
  manifest :: PluginManifest

text \<open>
  \<open>UriRedirect\<close>: \<open>from\<close> is a string, \<open>to\<close> is a string (an alias) or a plugin
  package. The fields are named \<open>redirect_from\<close> and \<open>redirect_to\<close> here.
\<close>

datatype 'p RedirectTarget = ToUri string | ToPlugin "'p PluginPackage"

record 'p UriRedirect =
  redirect_from :: string
  redirect_to :: "'p RedirectTarget"

section \<open>getImplementations\<close>

text \<open>\<open>Array.prototype.findIndex\<close>: the first index whose element satisfies the
  predicate, \<open>-1\<close> when there is none.\<close>

fun findIndex :: "('a \<Rightarrow> bool) \<Rightarrow> 'a list \<Rightarrow> int" where
  "findIndex P [] = -1"
| "findIndex P (x # xs) =
     (if P x then 0 else (let i = findIndex P xs in if i = -1 then -1 else i + 1))"

text \<open>
  The \<open>for ... of\<close> loop of \<open>getImplementations\<close>, with the array \<open>result\<close> as an
  accumulator. A throwing \<open>new Uri(...)\<close> leaves the loop with the error.
\<close>

fun getImplementations_loop ::
  "(string \<Rightarrow> jserror + Uri) \<Rightarrow> Uri \<Rightarrow> 'p UriRedirect list \<Rightarrow> Uri list \<Rightarrow> jserror + Uri list"
where
  "getImplementations_loop newUri abstractApi [] result = Inr result"
| "getImplementations_loop newUri abstractApi (redirect # rest) result =
     (case redirect_to redirect of
        ToPlugin package \<Rightarrow>
          (let implementedApi =
                 (findIndex (\<lambda>u. Uri_equals u abstractApi) (implemented (manifest package)) > -1)
           in if implementedApi
              then (case newUri (redirect_from redirect) of
                      Inl e \<Rightarrow> Inl e
                    | Inr u \<Rightarrow> getImplementations_loop newUri abstractApi rest (result @ [u]))
              else getImplementations_loop newUri abstractApi rest result)
      | ToUri target \<Rightarrow>
          (case newUri (redirect_from redirect) of
             Inl e \<Rightarrow> Inl e
           | Inr fromUri \<Rightarrow>
               if Uri_equals fromUri abstractApi
               then (case newUri target of
                       Inl e \<Rightarrow> Inl e
                     | Inr u \<Rightarrow> getImplementations_loop newUri abstractApi rest (result @ [u]))
               else getImplementations_loop newUri abstractApi rest result))"

definition getImplementations ::
  "(string \<Rightarrow> jserror + Uri) \<Rightarrow> Uri \<Rightarrow> 'p UriRedirect list \<Rightarrow> jserror + Uri list"
where
  "getImplementations newUri abstractApi redirects =
     getImplementations_loop newUri abstractApi redirects []"

text \<open>The strings of a redirect that \<open>new Uri\<close> accepts.\<close>

definition wellformed_redirect :: "(string \<Rightarrow> jserror + Uri) \<Rightarrow> 'p UriRedirect \<Rightarrow> bool" where
  "wellformed_redirect newUri r =
     (\<not> isl (newUri (redirect_from r)) \<and>
      (case redirect_to r of ToUri target \<Rightarrow> \<not> isl (newUri target) | ToPlugin _ \<Rightarrow> True))"

text \<open>
  What the loop does, entry by entry: a plugin entry matches when its manifest's
  \<open>implemented\<close> list holds the abstract Uri and yields its \<open>from\<close>; an alias entry
  matches when its \<open>from\<close> is the abstract Uri and yields its \<open>to\<close>.
\<close>

definition implements_entry ::
  "(string \<Rightarrow> jserror + Uri) \<Rightarrow> Uri \<Rightarrow> 'p UriRedirect \<Rightarrow> bool"
where
  "implements_entry newUri abstractApi r =
     (case redirect_to r of
        ToPlugin package \<Rightarrow> list_ex (\<lambda>u. Uri_equals u abstractApi) (implemented (manifest package))
      | ToUri target \<Rightarrow>
          (case newUri (redirect_from r) of
             Inl e \<Rightarrow> False
           | Inr fromUri \<Rightarrow> Uri_equals fromUri abstractApi))"

definition produced_text :: "'p UriRedirect \<Rightarrow> string" where
  "produced_text r = (case redirect_to r of ToPlugin package \<Rightarrow> redirect_from r | ToUri target \<Rightarrow> target)"

definition parsed :: "(string \<Rightarrow> jserror + Uri) \<Rightarrow> string \<Rightarrow> Uri option" where
  "parsed newUri text = (case newUri text of Inl e \<Rightarrow> None | Inr u \<Rightarrow> Some u)"

definition table_implementations ::
  "(string \<Rightarrow> jserror + Uri) \<Rightarrow> Uri \<Rightarrow> 'p UriRedirect list \<Rightarrow> Uri list"
where
  "table_implementations newUri abstractApi redirects =
     List.map_filter (\<lambda>r. parsed newUri (produced_text r))
       (filter (implements_entry newUri abstractApi) redirects)"

text \<open>
  The Implementation Index as the specification words it: a plugin entry whose
  \<open>implemented\<close> set contains the abstract Uri yields its \<open>from\<close>; a pure alias yields its
  \<open>to\<close> when that \<open>to\<close> is the \<open>from\<close> of a binding whose \<open>implemented\<close> set contains
  the abstract Uri.
\<close>

definition same_text_uri :: "(string \<Rightarrow> jserror + Uri) \<Rightarrow> string \<Rightarrow> string \<Rightarrow> bool" where
  "same_text_uri newUri a b =
     (case (newUri a, newUri b) of (Inr x, Inr y) \<Rightarrow> Uri_equals x y | _ \<Rightarrow> False)"

definition spec_implements_entry ::
  "(string \<Rightarrow> jserror + Uri) \<Rightarrow> Uri \<Rightarrow> 'p UriRedirect list \<Rightarrow> 'p UriRedirect \<Rightarrow> bool"
where
  "spec_implements_entry newUri abstractApi redirects r =
     (case redirect_to r of
        ToPlugin package \<Rightarrow> list_ex (\<lambda>u. Uri_equals u abstractApi) (implemented (manifest package))
      | ToUri target \<Rightarrow>
          list_ex (\<lambda>b. case redirect_to b of
                         ToPlugin package \<Rightarrow>
                           same_text_uri newUri (redirect_from b) target \<and>
                           list_ex (\<lambda>u. Uri_equals u abstractApi) (implemented (manifest package))
                       | ToUri _ \<Rightarrow> False)
                  redirects)"

definition spec_getImplementations ::
  "(string \<Rightarrow> jserror + Uri) \<Rightarrow> Uri \<Rightarrow> 'p UriRedirect list \<Rightarrow> Uri list"
where
  "spec_getImplementations newUri abstractApi redirects =
     List.map_filter (\<lambda>r. parsed newUri (produced_text r))
       (filter (spec_implements_entry newUri abstractApi redirects) redirects)"

text \<open>The redirect table of the repository's test \<open>get-implementations.spec.ts\<close>
  (\<open>implementations\<close> followed by \<open>others\<close>).\<close>

definition test_redirects :: "unit UriRedirect list" where
  "test_redirects =
     [\<lparr>redirect_from = ''authority/some-abstract-interface'', redirect_to = ToUri ''one/1''\<rparr>,
      \<lparr>redirect_from = ''authority/some-abstract-interface'',
       redirect_to = ToPlugin \<lparr>factory = (), manifest =
         \<lparr>schema = [], implemented = [\<lparr>uri = ''authority/some-abstract-interface''\<rparr>],
          imported = []\<rparr>\<rparr>\<rparr>,
      \<lparr>redirect_from = ''something/else'',
       redirect_to = ToPlugin \<lparr>factory = (), manifest =
         \<lparr>schema = [], implemented = [\<lparr>uri = ''authority/some-abstract-interface''\<rparr>],
          imported = [\<lparr>uri = ''something/else-2''\<rparr>]\<rparr>\<rparr>\<rparr>,
      \<lparr>redirect_from = ''some-other/other'', redirect_to = ToUri ''other/other''\<rparr>,
      \<lparr>redirect_from = ''some-other/other1'',
       redirect_to = ToPlugin \<lparr>factory = (), manifest =
         \<lparr>schema = [], implemented = [], imported = []\<rparr>\<rparr>\<rparr>]"

section \<open>Web3ApiClient: construction\<close>

text \<open>
  The constructor pushes the default redirects into the array that the config object
  holds, and \<open>redirects()\<close> returns that same array. Arrays are therefore objects in a
  store: a \<open>ClientConfig\<close> holds the address of its \<open>redirects\<close> array, and the store
  maps addresses to array contents. \<open>fresh\<close> is the next unused address.
\<close>

type_synonym ref = nat

record 'p store =
  arrays :: "ref \<Rightarrow> 'p UriRedirect list"
  fresh :: ref

record ClientConfig =
  redirects :: ref

text \<open>
  The client object: its config and its API cache (a \<open>Map\<close> from the Uri's string to the
  Api). The Api objects (\<open>PluginWeb3Api\<close>, \<open>WasmWeb3Api\<close>) are not among the sources
  and are kept abstract (\<open>'api\<close>). The tracer (\<open>_logger\<close>, \<open>_showLogging\<close>,
  \<open>_rootSpan\<close>) only receives events and is left out of the model.
\<close>

record 'api Web3ApiClient =
  config :: ClientConfig
  apiCache :: "string \<rightharpoonup> 'api"

text \<open>\<open>Array.prototype.push\<close> on the array at an address.\<close>

definition push :: "ref \<Rightarrow> 'p UriRedirect list \<Rightarrow> 'p store \<Rightarrow> 'p store" where
  "push a items h = h\<lparr>arrays := (arrays h)(a := arrays h a @ items)\<rparr>"

text \<open>The object literal \<open>{ redirects: [...] }\<close>: a new array in the store.\<close>

definition new_config :: "'p UriRedirect list \<Rightarrow> 'p store \<Rightarrow> ClientConfig \<times> 'p store" where
  "new_config items h =
     (\<lparr>redirects = fresh h\<rparr>, h\<lparr>arrays := (arrays h)(fresh h := items), fresh := Suc (fresh h)\<rparr>)"

text \<open>
  The constructor. \<open>getDefaultRedirects\<close> is not among the sources; the list it returns
  is the parameter of that name. An omitted config is the default parameter
  \<open>{ redirects: [] }\<close>.
\<close>

definition Web3ApiClient_new ::
  "'p UriRedirect list \<Rightarrow> ClientConfig option \<Rightarrow> 'p store \<Rightarrow> 'api Web3ApiClient \<times> 'p store"
where
  "Web3ApiClient_new getDefaultRedirects given h =
     (let (cfg, h1) = (case given of None \<Rightarrow> new_config [] h | Some c \<Rightarrow> (c, h));
          h2 = push (redirects cfg) getDefaultRedirects h1
      in (\<lparr>config = cfg, apiCache = Map.empty\<rparr>, h2))"

definition Web3ApiClient_redirects :: "'api Web3ApiClient \<Rightarrow> 'p store \<Rightarrow> 'p UriRedirect list" where
  "Web3ApiClient_redirects client h = arrays h (redirects (config client))"

text \<open>
  The configuration surface as the specification words it: the defaults are appended
  unless an earlier explicit entry resolves the same authority.
\<close>

definition spec_configured_redirects ::
  "'p UriRedirect list \<Rightarrow> 'p UriRedirect list \<Rightarrow> 'p UriRedirect list"
where
  "spec_configured_redirects supplied defaults =
     supplied @
     filter (\<lambda>d. \<not> list_ex (\<lambda>r. redirect_from r = redirect_from d) supplied) defaults"

text \<open>A store with no arrays yet, an explicit entry for the content-store authority,
  and a default entry for the same authority.\<close>

definition empty_store :: "unit store" where
  "empty_store = \<lparr>arrays = (\<lambda>a. []), fresh = 0\<rparr>"

definition explicit_ipfs :: "unit UriRedirect" where
  "explicit_ipfs =
     \<lparr>redirect_from = ''w3://ens/ipfs.web3api.eth'', redirect_to = ToUri ''w3://ens/my-ipfs.eth''\<rparr>"

definition default_ipfs :: "unit UriRedirect" where
  "default_ipfs =
     \<lparr>redirect_from = ''w3://ens/ipfs.web3api.eth'',
      redirect_to = ToPlugin \<lparr>factory = (), manifest =
        \<lparr>schema = [], implemented = [\<lparr>uri = ''w3://ens/uri-resolver.core.web3api.eth''\<rparr>],
         imported = []\<rparr>\<rparr>\<rparr>"

section \<open>Web3ApiClient: loadWeb3Api\<close>

text \<open>
  \<open>resolveUri\<close> is imported from the core package and is not among the sources. Its
  promise either rejects with an error or resolves to an Api or to \<open>undefined\<close>: a value
  of \<open>jserror + 'api option\<close>.

  \<open>loadWeb3Api\<close> runs in two synchronous segments around its one \<open>await\<close>. The first
  reads the cache and, on a miss, calls \<open>resolveUri\<close>. The second, \<open>loadWeb3Api_resume\<close>,
  runs when that promise has settled: it throws what the promise rejected with, throws
  \<open>Unable to resolve\<close> for \<open>undefined\<close>, and otherwise stores the Api in the cache and
  returns it.
\<close>

definition loadWeb3Api_resume ::
  "Uri \<Rightarrow> jserror + 'api option \<Rightarrow> 'api Web3ApiClient \<Rightarrow> (jserror + 'api) \<times> 'api Web3ApiClient"
where
  "loadWeb3Api_resume u settled client =
     (case settled of
        Inl e \<Rightarrow> (Inl e, client)
      | Inr None \<Rightarrow> (Inl (Error (''Unable to resolve Web3API at uri: '' @ uri u)), client)
      | Inr (Some api) \<Rightarrow> (Inr api, client\<lparr>apiCache := (apiCache client)(uri u \<mapsto> api)\<rparr>))"

text \<open>A call that runs alone: the promise of \<open>resolveUri\<close> settles with no other
  code of the client running in between.\<close>

definition loadWeb3Api ::
  "(Uri \<Rightarrow> jserror + 'api option) \<Rightarrow> Uri \<Rightarrow> 'api Web3ApiClient \<Rightarrow>
   (jserror + 'api) \<times> 'api Web3ApiClient"
where
  "loadWeb3Api resolveUri u client =
     (case apiCache client (uri u) of
        Some api \<Rightarrow> (Inr api, client)
      | None \<Rightarrow> loadWeb3Api_resume u (resolveUri u) client)"

subsection \<open>Calls that overlap\<close>

text \<open>
  Several \<open>loadWeb3Api\<close> calls can be pending at once (\<open>query\<close> starts all its
  invocations before awaiting any). Each call is a task: \<open>Awaiting u\<close> while its
  \<open>resolveUri\<close> promise is pending, then \<open>Returned api\<close> or \<open>Threw e\<close>. An event is either
  a new call, which runs the first segment, or the settling of the pending promise of
  task \<open>i\<close>, which runs \<open>loadWeb3Api_resume\<close> for that task.
\<close>

datatype 'api task = Awaiting Uri | Returned 'api | Threw jserror

datatype 'api event = Call Uri | Settle nat "jserror + 'api option"

record 'api run_state =
  client :: "'api Web3ApiClient"
  tasks :: "'api task list"

fun step :: "'api event \<Rightarrow> 'api run_state \<Rightarrow> 'api run_state" where
  "step (Call u) s =
     (case apiCache (client s) (uri u) of
        Some api \<Rightarrow> s\<lparr>tasks := tasks s @ [Returned api]\<rparr>
      | None \<Rightarrow> s\<lparr>tasks := tasks s @ [Awaiting u]\<rparr>)"
| "step (Settle i settled) s =
     (if i < length (tasks s)
      then (case tasks s ! i of
              Awaiting u \<Rightarrow>
                (case loadWeb3Api_resume u settled (client s) of
                   (Inl e, client') \<Rightarrow> s\<lparr>client := client', tasks := (tasks s)[i := Threw e]\<rparr>
                 | (Inr api, client') \<Rightarrow> s\<lparr>client := client', tasks := (tasks s)[i := Returned api]\<rparr>)
            | Returned api \<Rightarrow> s
            | Threw e \<Rightarrow> s)
      else s)"

definition run :: "'api event list \<Rightarrow> 'api run_state \<Rightarrow> 'api run_state" where
  "run events s = foldl (\<lambda>s e. step e s) s events"

text \<open>The resolution attempts for a cache key that are in flight.\<close>

fun awaits :: "string \<Rightarrow> 'api task \<Rightarrow> bool" where
  "awaits k (Awaiting u) = (uri u = k)"
| "awaits k (Returned api) = False"
| "awaits k (Threw e) = False"

definition in_flight :: "string \<Rightarrow> 'api run_state \<Rightarrow> nat" where
  "in_flight k s = length (filter (awaits k) (tasks s))"

text \<open>
  What the caller of a pending call for \<open>u\<close> is to observe when the promise of its own
  \<open>resolveUri\<close> call settles: the error thrown or the Api returned.
\<close>

definition observed :: "Uri \<Rightarrow> jserror + 'api option \<Rightarrow> 'api task" where
  "observed u settled =
     (case settled of
        Inl e \<Rightarrow> Threw e
      | Inr None \<Rightarrow> Threw (Error (''Unable to resolve Web3API at uri: '' @ uri u))
      | Inr (Some api) \<Rightarrow> Returned api)"

text \<open>The events that settle the tasks \<open>base\<close>, \<open>base + 1\<close>, ... in turn with the given
  outcomes.\<close>

definition settle_each :: "nat \<Rightarrow> (jserror + 'api option) list \<Rightarrow> 'api event list" where
  "settle_each base outcomes = map (\<lambda>(i, settled). Settle i settled) (enumerate base outcomes)"

text \<open>A client with an empty cache and no call made, and the Uri of an API to load; the
  Api objects are numbered.\<close>

definition api_uri :: Uri where
  "api_uri = \<lparr>uri = ''w3://ens/api.simplestorage.eth''\<rparr>"

definition fresh_client :: "nat Web3ApiClient" where
  "fresh_client = \<lparr>config = \<lparr>redirects = 0\<rparr>, apiCache = Map.empty\<rparr>"

definition idle :: "nat run_state" where
  "idle = \<lparr>client = fresh_client, tasks = []\<rparr>"

section \<open>Web3ApiClient: invoke\<close>

text \<open>\<open>InvokeApiOptions\<close>: the fields \<open>uri\<close> and \<open>method\<close> are named \<open>invoke_uri\<close> and
  \<open>invoke_method\<close> here.\<close>

record 'v InvokeApiOptions =
  invoke_uri :: Uri
  invoke_method :: string
  input :: 'v
  decode :: bool

text \<open>\<open>InvokeApiResult\<close>: both fields are optional; \<open>None\<close> is \<open>undefined\<close>.\<close>

record 'v InvokeApiResult =
  data :: "'v option"
  error :: "jserror option"

text \<open>\<open>try { body } catch (error) { handler }\<close> on an already evaluated body.\<close>

definition try_catch :: "jserror + 'a \<Rightarrow> (jserror \<Rightarrow> jserror + 'a) \<Rightarrow> jserror + 'a" where
  "try_catch body handler = (case body of Inl e \<Rightarrow> handler e | Inr v \<Rightarrow> Inr v)"

text \<open>
  \<open>invoke\<close>: the result is \<open>Inl\<close> when the returned promise rejects. \<open>api.invoke\<close> is
  the parameter \<open>api_invoke\<close>, which may throw. The calls to the tracer in the \<open>try\<close>,
  \<open>catch\<close> and \<open>finally\<close> blocks are taken not to throw.
\<close>

definition invoke ::
  "(Uri \<Rightarrow> jserror + 'api option) \<Rightarrow>
   ('api \<Rightarrow> 'v InvokeApiOptions \<Rightarrow> jserror + 'v InvokeApiResult) \<Rightarrow>
   'v InvokeApiOptions \<Rightarrow> 'api Web3ApiClient \<Rightarrow>
   (jserror + 'v InvokeApiResult) \<times> 'api Web3ApiClient"
where
  "invoke resolveUri api_invoke options c =
     (case loadWeb3Api resolveUri (invoke_uri options) c of
        (loaded, c') \<Rightarrow>
          (try_catch
             (case loaded of Inl e \<Rightarrow> Inl e | Inr api \<Rightarrow> api_invoke api options)
             (\<lambda>error. Inr \<lparr>data = None, error = Some error\<rparr>),
           c'))"

section \<open>Web3ApiClient: query\<close>

text \<open>
  The \<open>data\<close> object of a query result: its properties in insertion order, a value
  \<open>None\<close> being \<open>undefined\<close>. Assigning to a property that exists keeps its place.
\<close>

type_synonym 'v jsobject = "(string \<times> 'v option) list"

record 'v QueryApiResult =
  query_data :: "'v jsobject option"
  errors :: "jserror list option"

text \<open>A number in a template literal: its decimal digits.\<close>

definition digit_char :: "nat \<Rightarrow> char" where
  "digit_char d = ''0123456789'' ! d"

fun string_of_nat :: "nat \<Rightarrow> string" where
  "string_of_nat n =
     (if n < 10 then [digit_char n] else string_of_nat (n div 10) @ [digit_char (n mod 10)])"

declare string_of_nat.simps [simp del]

text \<open>
  The objects \<open>counts\<close> and \<open>data\<close> are plain \<open>{}\<close> literals and inherit the properties
  of \<open>Object.prototype\<close>, whose names are these.
\<close>

definition object_prototype_names :: "string list" where
  "object_prototype_names =
     [''constructor'', ''__defineGetter__'', ''__defineSetter__'', ''hasOwnProperty'',
      ''__lookupGetter__'', ''__lookupSetter__'', ''isPrototypeOf'', ''propertyIsEnumerable'',
      ''toString'', ''valueOf'', ''__proto__'', ''toLocaleString'']"

text \<open>
  The helper \<open>makeRepeatedUnique\<close>: \<open>names.reduce\<close> with the accumulator \<open>acc\<close> and the
  object \<open>counts\<close>, read as \<open>counts[name] || 0\<close>. The map \<open>counts\<close> holds the numbers
  stored so far. For a name of \<open>Object.prototype\<close> the value read is a function or an
  object, which is truthy; adding \<open>1\<close> to it gives a string, \<open>count > 1\<close> compares
  \<open>NaN\<close> and is false, and what is stored under the name is never a number: such a
  name is pushed as it is, every time.
\<close>

fun makeRepeatedUnique_reduce ::
  "(string \<rightharpoonup> nat) \<Rightarrow> string list \<Rightarrow> string list \<Rightarrow> string list"
where
  "makeRepeatedUnique_reduce counts acc [] = acc"
| "makeRepeatedUnique_reduce counts acc (name # names) =
     (if name \<in> set object_prototype_names
      then makeRepeatedUnique_reduce counts (acc @ [name]) names
      else (let count = (case counts name of None \<Rightarrow> 0 | Some c \<Rightarrow> c) + 1;
                uniq = (if count > 1 then name @ ''_'' @ string_of_nat (count - 1) else name)
            in makeRepeatedUnique_reduce (counts(name \<mapsto> count)) (acc @ [uniq]) names))"

definition makeRepeatedUnique :: "string list \<Rightarrow> string list" where
  "makeRepeatedUnique names = makeRepeatedUnique_reduce Map.empty [] names"

text \<open>The loop over the settled invocations, filling \<open>methods\<close>, \<open>resultDatas\<close> and
  \<open>errors\<close>. An error object is truthy.\<close>

fun collect ::
  "(string \<times> 'v InvokeApiResult) list \<Rightarrow> string list \<times> 'v option list \<times> jserror list \<Rightarrow>
   string list \<times> 'v option list \<times> jserror list"
where
  "collect [] acc = acc"
| "collect ((m, result) # invocations) (methods, resultDatas, errs) =
     collect invocations
       (methods @ [m], resultDatas @ [data result],
        (case error result of Some e \<Rightarrow> errs @ [e] | None \<Rightarrow> errs))"

text \<open>
  The loop \<open>data[methods[i]] = resultDatas[i]\<close>; an index beyond \<open>resultDatas\<close> reads
  \<open>undefined\<close>. The object lists the own properties of \<open>data\<close>: an assignment to
  \<open>__proto__\<close> goes to the accessor inherited from \<open>Object.prototype\<close> and creates
  none.
\<close>

function build_data :: "nat \<Rightarrow> string list \<Rightarrow> 'v option list \<Rightarrow> 'v jsobject \<Rightarrow> 'v jsobject" where
  "build_data i methods resultDatas obj =
     (if i < length methods
      then build_data (i + 1) methods resultDatas
             (if methods ! i = ''__proto__'' then obj
              else AList.update (methods ! i)
                     (if i < length resultDatas then resultDatas ! i else None) obj)
      else obj)"
  by pat_completeness auto
termination
  by (relation "measure (\<lambda>(i, methods, resultDatas, obj). length methods - i)") auto

declare build_data.simps [simp del]

definition aggregate :: "(string \<times> 'v InvokeApiResult) list \<Rightarrow> 'v QueryApiResult" where
  "aggregate invocations =
     (case collect invocations ([], [], []) of
        (methods, resultDatas, errs) \<Rightarrow>
          \<lparr>query_data = Some (build_data 0 (makeRepeatedUnique methods) resultDatas []),
           errors = (if length errs = 0 then None else Some errs)\<rparr>)"

text \<open>\<open>error.length\<close> is truthy for a non-empty array.\<close>

fun has_length :: "jserror \<Rightarrow> bool" where
  "has_length (Error msg) = False"
| "has_length (ErrorArray es) = (es \<noteq> [])"

fun array_items :: "jserror \<Rightarrow> jserror list" where
  "array_items (Error msg) = []"
| "array_items (ErrorArray es) = es"

text \<open>
  \<open>query\<close>. \<open>createQueryDocument\<close> and \<open>parseQuery\<close> are not among the sources: the
  parameter \<open>parseQuery\<close> stands for both and may throw. The invocations run in
  parallel; \<open>settled i options\<close> is the value the promise of the \<open>i\<close>-th \<open>this.invoke\<close>
  call resolves to.
\<close>

definition query ::
  "('q \<Rightarrow> jserror + 'v InvokeApiOptions list) \<Rightarrow>
   (nat \<Rightarrow> 'v InvokeApiOptions \<Rightarrow> 'v InvokeApiResult) \<Rightarrow> 'q \<Rightarrow> jserror + 'v QueryApiResult"
where
  "query parseQuery settled options =
     try_catch
       (case parseQuery options of
          Inl e \<Rightarrow> Inl e
        | Inr invokeOptions \<Rightarrow>
            Inr (aggregate
                   (map (\<lambda>(i, invocation). (invoke_method invocation, settled i (invocation\<lparr>decode := True\<rparr>)))
                        (enumerate 0 invokeOptions))))
       (\<lambda>error. if has_length error
                then Inr \<lparr>query_data = None, errors = Some (array_items error)\<rparr>
                else Inr \<lparr>query_data = None, errors = Some [error]\<rparr>)"

section \<open>Resolution with a cycle guard\<close>

text \<open>
  Modelled from the spec: \<open>resolveUri\<close> is imported from the core package and is not
  among the sources. The redirect table has entries \<open>(from: Uri, to: Target)\<close>, a target
  being a Uri (a pure alias) or a plugin binding.
\<close>

datatype 'p Target = AliasTo Uri | Binding "'p PluginPackage"

record 'p Redirect =
  from_uri :: Uri
  target :: "'p Target"

datatype resolution_error = ResolutionCycle | UnresolvedUri

text \<open>The handle of a plugin: the Uri it was resolved for and the instance.\<close>

datatype 'p PluginHandle = PluginHandle Uri 'p

text \<open>The Uris of the table that the walk has not visited yet.\<close>

definition unvisited :: "'p Redirect list \<Rightarrow> string list \<Rightarrow> nat" where
  "unvisited table visited = card (set (map (\<lambda>r. uri (from_uri r)) table) - set visited)"

lemma find_from_uri:
  "find (\<lambda>r. Uri_equals (from_uri r) t) table = Some r \<Longrightarrow>
   uri t \<in> set (map (\<lambda>r. uri (from_uri r)) table)"
  by (induction table) (auto simp: Uri_equals_def split: if_splits)

lemma unvisited_decreases:
  assumes "uri t \<notin> set visited"
    and "find (\<lambda>r. Uri_equals (from_uri r) t) table = Some r"
  shows "unvisited table (uri t # visited) < unvisited table visited"
proof -
  let ?F = "set (map (\<lambda>r. uri (from_uri r)) table)"
  have "uri t \<in> ?F - set visited"
    using assms find_from_uri [OF assms(2)] by simp
  moreover have "?F - set (uri t # visited) = (?F - set visited) - {uri t}"
    by auto
  moreover have "finite (?F - set visited)" by simp
  ultimately show ?thesis
    unfolding unvisited_def by (metis card_Diff1_less)
qed

text \<open>
  Modelled from the spec: the Resolution Engine. The Uris being resolved in the
  current call chain are \<open>visited\<close>; a repeat fails with \<open>ResolutionCycle\<close>. The table
  is scanned in order for a \<open>from\<close> matching the target: an alias recurses on its \<open>to\<close>,
  a plugin binding is instantiated and ends the resolution. With no direct match the
  resolution is delegated to the resolver implementations, which are external: the
  parameter \<open>delegated\<close> is the outcome of that step, \<open>UnresolvedUri\<close> when it produces no
  handle.
\<close>

function resolveUri_guarded ::
  "'p Redirect list \<Rightarrow> (Uri \<Rightarrow> resolution_error + 'p PluginHandle) \<Rightarrow> string list \<Rightarrow> Uri \<Rightarrow>
   resolution_error + 'p PluginHandle"
where
  "resolveUri_guarded table delegated visited t =
     (if uri t \<in> set visited then Inl ResolutionCycle
      else (case find (\<lambda>r. Uri_equals (from_uri r) t) table of
              None \<Rightarrow> delegated t
            | Some r \<Rightarrow>
                (case target r of
                   AliasTo t' \<Rightarrow> resolveUri_guarded table delegated (uri t # visited) t'
                 | Binding package \<Rightarrow> Inr (PluginHandle t (factory package)))))"
  by pat_completeness auto
termination
  by (relation "measure (\<lambda>(table, delegated, visited, t). unvisited table visited)")
     (auto intro: unvisited_decreases)

declare resolveUri_guarded.simps [simp del]

definition resolveUri_spec ::
  "'p Redirect list \<Rightarrow> (Uri \<Rightarrow> resolution_error + 'p PluginHandle) \<Rightarrow> Uri \<Rightarrow>
   resolution_error + 'p PluginHandle"
where
  "resolveUri_spec table delegated t = resolveUri_guarded table delegated [] t"

text \<open>The table in which \<open>A\<close> aliases to \<open>B\<close> and \<open>B\<close> aliases to \<open>A\<close>, and a
  delegated step with no resolver to ask.\<close>

definition no_resolvers :: "Uri \<Rightarrow> resolution_error + unit PluginHandle" where
  "no_resolvers u = Inl UnresolvedUri"


definition cyclic_table :: "unit Redirect list" where
  "cyclic_table =
     [\<lparr>from_uri = \<lparr>uri = ''w3://ens/a.eth''\<rparr>, target = AliasTo \<lparr>uri = ''w3://ens/b.eth''\<rparr>\<rparr>,
      \<lparr>from_uri = \<lparr>uri = ''w3://ens/b.eth''\<rparr>, target = AliasTo \<lparr>uri = ''w3://ens/a.eth''\<rparr>\<rparr>]"

section \<open>Properties of getImplementations\<close>

lemma findIndex_ge: "- 1 \<le> findIndex P xs"
  by (induction xs) (auto simp: Let_def)

lemma findIndex_found: "(findIndex P xs > -1) = list_ex P xs"
proof (induction xs)
  case Nil
  show ?case by simp
next
  case (Cons x xs)
  have "- 1 \<le> findIndex P xs" by (rule findIndex_ge)
  with Cons show ?case by (auto simp: Let_def)
qed

lemma getImplementations_loop_wellformed:
  "\<forall>r \<in> set rs. wellformed_redirect newUri r \<Longrightarrow>
   getImplementations_loop newUri abstractApi rs result =
     Inr (result @ table_implementations newUri abstractApi rs)"
proof (induction rs arbitrary: result)
  case Nil
  show ?case by (simp add: table_implementations_def)
next
  case (Cons r rs)
  from Cons.prems have wf: "wellformed_redirect newUri r"
    and rest: "\<forall>r \<in> set rs. wellformed_redirect newUri r" by simp_all
  note IH = Cons.IH [OF rest]
  show ?case
  proof (cases "redirect_to r")
    case (ToPlugin package)
    with wf obtain u where u: "newUri (redirect_from r) = Inr u"
      by (cases "newUri (redirect_from r)") (auto simp: wellformed_redirect_def)
    show ?thesis
      using ToPlugin u IH
      by (simp add: findIndex_found implements_entry_def produced_text_def
          table_implementations_def parsed_def)
  next
    case (ToUri target)
    with wf obtain f t where f: "newUri (redirect_from r) = Inr f" and t: "newUri target = Inr t"
      by (cases "newUri (redirect_from r)"; cases "newUri target")
         (auto simp: wellformed_redirect_def)
    show ?thesis
      using ToUri f t IH
      by (simp add: implements_entry_def produced_text_def
          table_implementations_def parsed_def)
  qed
qed

lemma length_map_filter_all:
  "\<forall>x \<in> set xs. f x \<noteq> None \<Longrightarrow> length (List.map_filter f xs) = length xs"
  by (induction xs) (auto simp: map_filter_simps)

text \<open>
  Claim C1, as amended. When every string of the table is a well-formed Uri,
  \<open>getImplementations\<close> returns, in table order, one Uri per matching entry and nothing
  else: the \<open>from\<close> of each plugin entry whose manifest's \<open>implemented\<close> list holds the
  abstract Uri, and the \<open>to\<close> of each alias entry whose \<open>from\<close> is the abstract Uri. The
  result is the empty sequence, not an error, when no entry matches.
\<close>

theorem getImplementations_table_order:
  assumes "\<forall>r \<in> set rs. wellformed_redirect newUri r"
  shows "getImplementations newUri abstractApi rs =
           Inr (table_implementations newUri abstractApi rs) \<and>
         length (table_implementations newUri abstractApi rs) =
           length (filter (implements_entry newUri abstractApi) rs) \<and>
         (filter (implements_entry newUri abstractApi) rs = [] \<longrightarrow>
            getImplementations newUri abstractApi rs = Inr [])"
proof -
  have eq: "getImplementations newUri abstractApi rs =
              Inr (table_implementations newUri abstractApi rs)"
    using getImplementations_loop_wellformed [OF assms, of abstractApi "[]"]
    by (simp add: getImplementations_def)
  have "\<forall>r \<in> set (filter (implements_entry newUri abstractApi) rs).
          parsed newUri (produced_text r) \<noteq> None"
    using assms
    by (auto simp: wellformed_redirect_def parsed_def produced_text_def
        split: RedirectTarget.splits sum.splits)
  then have len: "length (table_implementations newUri abstractApi rs) =
                    length (filter (implements_entry newUri abstractApi) rs)"
    unfolding table_implementations_def by (rule length_map_filter_all)
  show ?thesis using eq len by (simp add: table_implementations_def)
qed

text \<open>The amended claim C1 on the table of the repository's test: the alias entry
  contributes \<open>one/1\<close>, as the test expects.\<close>

theorem getImplementations_table_order_witness:
  "list_all (wellformed_redirect Uri_new) test_redirects \<and>
   getImplementations Uri_new \<lparr>uri = ''authority/some-abstract-interface''\<rparr> test_redirects =
     Inr [\<lparr>uri = ''one/1''\<rparr>, \<lparr>uri = ''authority/some-abstract-interface''\<rparr>,
          \<lparr>uri = ''something/else''\<rparr>]"
proof -
  have all: "list_all (wellformed_redirect Uri_new) test_redirects"
    by (simp add: test_redirects_def wellformed_redirect_def Uri_new_def)
  then have wf: "\<forall>r \<in> set test_redirects. wellformed_redirect Uri_new r"
    by (simp add: list_all_iff)
  have "table_implementations Uri_new \<lparr>uri = ''authority/some-abstract-interface''\<rparr>
          test_redirects =
        [\<lparr>uri = ''one/1''\<rparr>, \<lparr>uri = ''authority/some-abstract-interface''\<rparr>,
         \<lparr>uri = ''something/else''\<rparr>]"
    by (simp add: table_implementations_def implements_entry_def parsed_def produced_text_def
        test_redirects_def Uri_new_def Uri_equals_def)
  with getImplementations_table_order
         [OF wf, of "\<lparr>uri = ''authority/some-abstract-interface''\<rparr>"] all
  show ?thesis by simp
qed

text \<open>
  Claim C1 as stated fails on the test's table: the alias from the abstract Uri to
  \<open>one/1\<close> is in the result of the code, although \<open>one/1\<close> is the \<open>from\<close> of no binding.
\<close>

theorem getImplementations_alias_counterexample:
  "getImplementations Uri_new \<lparr>uri = ''authority/some-abstract-interface''\<rparr> test_redirects \<noteq>
   Inr (spec_getImplementations Uri_new \<lparr>uri = ''authority/some-abstract-interface''\<rparr>
          test_redirects)"
  by (simp add: getImplementations_def spec_getImplementations_def spec_implements_entry_def
      same_text_uri_def parsed_def produced_text_def test_redirects_def Uri_new_def
      Uri_equals_def)

section \<open>Properties of the constructor\<close>

text \<open>
  Claim C9, as amended. The constructor always appends the default redirects, also when
  an earlier explicit entry has the same \<open>from\<close>: \<open>redirects()\<close> is the supplied entries
  followed by all the defaults, and the defaults alone when no config is given.
\<close>

theorem constructor_appends_defaults:
  "Web3ApiClient_redirects (fst (Web3ApiClient_new defaults (Some cfg) h))
       (snd (Web3ApiClient_new defaults (Some cfg) h)) =
     arrays h (redirects cfg) @ defaults \<and>
   Web3ApiClient_redirects (fst (Web3ApiClient_new defaults None h))
       (snd (Web3ApiClient_new defaults None h)) = defaults"
  by (simp add: Web3ApiClient_new_def Web3ApiClient_redirects_def push_def new_config_def)

text \<open>
  Claim C9 as stated fails: with an explicit entry for the authority of a default, the
  default is appended all the same.
\<close>

theorem constructor_override_counterexample:
  "Web3ApiClient_redirects
       (fst (Web3ApiClient_new [default_ipfs] (Some (fst (new_config [explicit_ipfs] empty_store)))
               (snd (new_config [explicit_ipfs] empty_store))))
       (snd (Web3ApiClient_new [default_ipfs] (Some (fst (new_config [explicit_ipfs] empty_store)))
               (snd (new_config [explicit_ipfs] empty_store)))) \<noteq>
     spec_configured_redirects [explicit_ipfs] [default_ipfs]"
  by (simp add: Web3ApiClient_new_def Web3ApiClient_redirects_def push_def new_config_def
      spec_configured_redirects_def explicit_ipfs_def default_ipfs_def empty_store_def)

text \<open>
  Claim C10. The constructor extends the caller's own array: after one construction the
  array of the config holds the defaults too, and a second client built from the same
  config sees them twice, as does the first client from then on.
\<close>

theorem constructor_mutates_config:
  "arrays (snd (Web3ApiClient_new defaults (Some cfg) h)) (redirects cfg) =
     arrays h (redirects cfg) @ defaults \<and>
   Web3ApiClient_redirects
       (fst (Web3ApiClient_new defaults (Some cfg) (snd (Web3ApiClient_new defaults (Some cfg) h))))
       (snd (Web3ApiClient_new defaults (Some cfg) (snd (Web3ApiClient_new defaults (Some cfg) h)))) =
     arrays h (redirects cfg) @ defaults @ defaults \<and>
   Web3ApiClient_redirects
       (fst (Web3ApiClient_new defaults (Some cfg) h))
       (snd (Web3ApiClient_new defaults (Some cfg) (snd (Web3ApiClient_new defaults (Some cfg) h)))) =
     arrays h (redirects cfg) @ defaults @ defaults"
  by (simp add: Web3ApiClient_new_def Web3ApiClient_redirects_def push_def)

section \<open>Properties of invoke\<close>

text \<open>
  Claim C3. The promise of \<open>invoke\<close> never rejects: whatever \<open>loadWeb3Api\<close> or the
  Api's \<open>invoke\<close> throws is returned as the \<open>error\<close> field of a result value.
\<close>

theorem invoke_never_raises:
  "(\<exists>result. fst (invoke resolveUri api_invoke options c) = Inr result) \<and>
   fst (invoke resolveUri api_invoke options c) =
     Inr (case fst (loadWeb3Api resolveUri (invoke_uri options) c) of
            Inl e \<Rightarrow> \<lparr>data = None, error = Some e\<rparr>
          | Inr api \<Rightarrow>
              (case api_invoke api options of
                 Inl e \<Rightarrow> \<lparr>data = None, error = Some e\<rparr>
               | Inr result \<Rightarrow> result))"
  by (auto simp: invoke_def try_catch_def split: prod.splits sum.splits)

section \<open>Properties of the cache\<close>

lemma run_Nil: "run [] s = s"
  by (simp add: run_def)

lemma run_Cons: "run (e # es) s = run es (step e s)"
  by (simp add: run_def)

lemma run_calls_miss:
  "apiCache (client s) (uri u) = None \<Longrightarrow>
   run (replicate n (Call u)) s = s\<lparr>tasks := tasks s @ replicate n (Awaiting u)\<rparr>"
proof (induction n arbitrary: s)
  case 0
  show ?case by (simp add: run_Nil)
next
  case (Suc n)
  let ?s = "s\<lparr>tasks := tasks s @ [Awaiting u]\<rparr>"
  from Suc.prems have st: "step (Call u) s = ?s" by simp
  from Suc.prems have "apiCache (client ?s) (uri u) = None" by simp
  from Suc.IH [OF this] st show ?case
    by (simp add: run_Cons replicate_app_Cons_same)
qed

lemma step_Call_hit:
  assumes "apiCache (client s) (uri u) = Some h"
  shows "step (Call u) s = s\<lparr>tasks := tasks s @ [Returned h]\<rparr>"
    and "in_flight k (step (Call u) s) = in_flight k s"
  using assms by (simp_all add: in_flight_def)

lemma step_Settle_awaiting:
  assumes "i < length (tasks s)" and "tasks s ! i = Awaiting u"
  shows "tasks (step (Settle i settled) s) = (tasks s)[i := observed u settled]"
  using assms
  by (auto simp: loadWeb3Api_resume_def observed_def split: sum.splits option.splits)


lemma step_Settle_success:
  assumes "i < length (tasks s)" and "tasks s ! i = Awaiting u"
  shows "client (step (Settle i (Inr (Some h))) s) =
           (client s)\<lparr>apiCache := (apiCache (client s))(uri u \<mapsto> h)\<rparr>"
  using assms by (simp add: loadWeb3Api_resume_def)

lemma settle_each_in_order:
  "tasks t = T @ replicate (length outcomes) (Awaiting u) \<Longrightarrow>
   tasks (run (settle_each (length T) outcomes) t) = T @ map (observed u) outcomes"
proof (induction outcomes arbitrary: T t)
  case Nil
  then show ?case by (simp add: settle_each_def run_Nil)
next
  case (Cons x xs)
  from Cons.prems have i: "length T < length (tasks t)"
    and a: "tasks t ! length T = Awaiting u"
    by simp_all
  from step_Settle_awaiting [OF i a, of x] Cons.prems
  have "tasks (step (Settle (length T) x) t) =
          (T @ [observed u x]) @ replicate (length xs) (Awaiting u)"
    by simp
  from Cons.IH [OF this] show ?case
    by (simp add: settle_each_def run_Cons)
qed

lemma loadWeb3Api_as_steps:
  "step (Settle (length (tasks s)) (resolveUri u)) (step (Call u) s) =
     \<lparr>client = snd (loadWeb3Api resolveUri u (client s)),
      tasks = tasks s @ [case fst (loadWeb3Api resolveUri u (client s)) of
                           Inl e \<Rightarrow> Threw e
                         | Inr api \<Rightarrow> Returned api]\<rparr>"
  by (cases "apiCache (client s) (uri u)"; cases "loadWeb3Api_resume u (resolveUri u) (client s)";
      cases "fst (loadWeb3Api_resume u (resolveUri u) (client s))")
     (auto simp: loadWeb3Api_def)

lemma loadWeb3Api_success_stored:
  assumes "apiCache c (uri u) = None" and "resolveUri u = Inr (Some h)"
  shows "loadWeb3Api resolveUri u c = (Inr h, c\<lparr>apiCache := (apiCache c)(uri u \<mapsto> h)\<rparr>)"
  using assms by (simp add: loadWeb3Api_def loadWeb3Api_resume_def)

text \<open>
  Claim C2, as amended. A \<open>loadWeb3Api\<close> call made while the cache has no entry for the
  Uri starts a resolution attempt of its own: after \<open>N\<close> calls for the same uncached Uri
  there are \<open>N\<close> more attempts in flight, and when they settle each call has the handle
  or the error of its own attempt. A call made while the Uri is cached returns the
  cached handle and starts no attempt. In any state, the settling of the attempt of one
  call changes the task of that call only.
\<close>

theorem loadWeb3Api_one_attempt_per_call:
  "(apiCache (client s) (uri u) = None \<longrightarrow>
      tasks (run (replicate n (Call u)) s) = tasks s @ replicate n (Awaiting u) \<and>
      in_flight (uri u) (run (replicate n (Call u)) s) = in_flight (uri u) s + n \<and>
      tasks (run (settle_each (length (tasks s)) outcomes)
                 (run (replicate (length outcomes) (Call u)) s)) =
        tasks s @ map (observed u) outcomes) \<and>
   (\<forall>h. apiCache (client s) (uri u) = Some h \<longrightarrow>
      tasks (step (Call u) s) = tasks s @ [Returned h] \<and>
      client (step (Call u) s) = client s \<and>
      in_flight k (step (Call u) s) = in_flight k s) \<and>
   (\<forall>i v settled. i < length (tasks s) \<and> tasks s ! i = Awaiting v \<longrightarrow>
      tasks (step (Settle i settled) s) = (tasks s)[i := observed v settled])"
proof (intro conjI impI allI)
  assume miss: "apiCache (client s) (uri u) = None"
  from run_calls_miss [OF miss, of n]
  show calls: "tasks (run (replicate n (Call u)) s) = tasks s @ replicate n (Awaiting u)"
    by simp
  then show "in_flight (uri u) (run (replicate n (Call u)) s) = in_flight (uri u) s + n"
    by (simp add: in_flight_def)
  from run_calls_miss [OF miss, of "length outcomes"]
  have "tasks (run (replicate (length outcomes) (Call u)) s) =
          tasks s @ replicate (length outcomes) (Awaiting u)"
    by simp
  then show "tasks (run (settle_each (length (tasks s)) outcomes)
                        (run (replicate (length outcomes) (Call u)) s)) =
               tasks s @ map (observed u) outcomes"
    by (rule settle_each_in_order)
next
  fix h
  assume hit: "apiCache (client s) (uri u) = Some h"
  from step_Call_hit(1) [OF hit]
  show "tasks (step (Call u) s) = tasks s @ [Returned h]"
    and "client (step (Call u) s) = client s"
    by simp_all
  from hit show "in_flight k (step (Call u) s) = in_flight k s"
    by (rule step_Call_hit(2))
next
  fix i v settled
  assume "i < length (tasks s) \<and> tasks s ! i = Awaiting v"
  then have "i < length (tasks s)" and "tasks s ! i = Awaiting v" by blast+
  then show "tasks (step (Settle i settled) s) = (tasks s)[i := observed v settled]"
    by (rule step_Settle_awaiting)
qed

text \<open>
  The amended claim C2 on a client with an empty cache: two overlapping calls, the first
  resolved and the second rejected; and a third call made once the Uri is cached.
\<close>

theorem loadWeb3Api_one_attempt_per_call_witness:
  "apiCache (client idle) (uri api_uri) = None \<and>
   in_flight (uri api_uri) (run [Call api_uri, Call api_uri] idle) = 2 \<and>
   tasks (run [Settle 0 (Inr (Some 1)), Settle 1 (Inl (Error ''offline''))]
              (run [Call api_uri, Call api_uri] idle)) =
     [Returned 1, Threw (Error ''offline'')] \<and>
   tasks (step (Settle 1 (Inl (Error ''offline''))) (run [Call api_uri, Call api_uri] idle)) =
     [Awaiting api_uri, Threw (Error ''offline'')] \<and>
   apiCache (client (run [Call api_uri, Settle 0 (Inr (Some 1))] idle)) (uri api_uri) = Some 1 \<and>
   tasks (step (Call api_uri) (run [Call api_uri, Settle 0 (Inr (Some 1))] idle)) =
     [Returned 1, Returned 1] \<and>
   in_flight (uri api_uri) (step (Call api_uri) (run [Call api_uri, Settle 0 (Inr (Some 1))] idle)) = 0"
proof -
  let ?outcomes = "[Inr (Some 1), Inl (Error ''offline'')] :: (jserror + nat option) list"
  let ?two = "run [Call api_uri, Call api_uri] idle"
  let ?cached = "run [Call api_uri, Settle 0 (Inr (Some 1))] idle"
  have miss: "apiCache (client idle) (uri api_uri) = None"
    by (simp add: idle_def fresh_client_def)
  have r: "replicate (Suc (Suc 0)) (Call api_uri) = [Call api_uri, Call api_uri]"
    and l: "length ?outcomes = Suc (Suc 0)" and t0: "tasks idle = []"
    and se: "settle_each (length (tasks idle)) ?outcomes =
               [Settle 0 (Inr (Some 1)), Settle 1 (Inl (Error ''offline''))]"
    by (simp_all add: idle_def settle_each_def)
  have two: "tasks ?two = [Awaiting api_uri, Awaiting api_uri]"
    by (simp add: run_def idle_def fresh_client_def)
  have hit: "apiCache (client ?cached) (uri api_uri) = Some 1"
    and one: "tasks ?cached = [Returned 1]"
    by (simp_all add: run_def idle_def fresh_client_def loadWeb3Api_resume_def)
  note first = loadWeb3Api_one_attempt_per_call
    [of idle api_uri "Suc (Suc 0)" ?outcomes, THEN conjunct1, rule_format, OF miss]
  note second = loadWeb3Api_one_attempt_per_call
    [of ?cached api_uri _ _ "uri api_uri", THEN conjunct2, THEN conjunct1, rule_format, OF hit]
  note third = loadWeb3Api_one_attempt_per_call
    [of ?two _ _ _ _, THEN conjunct2, THEN conjunct2, rule_format,
     of 1 api_uri "Inl (Error ''offline'')"]
  have a: "in_flight (uri api_uri) ?two = 2"
    using first unfolding r by (simp add: in_flight_def t0)
  have b: "tasks (run [Settle 0 (Inr (Some 1)), Settle 1 (Inl (Error ''offline''))] ?two) =
             [Returned 1, Threw (Error ''offline'')]"
    using first unfolding l r se by (simp add: t0 observed_def)
  have c: "tasks (step (Settle 1 (Inl (Error ''offline''))) ?two) =
             [Awaiting api_uri, Threw (Error ''offline'')]"
    using third two by (simp add: observed_def del: step.simps)
  have d: "tasks (step (Call api_uri) ?cached) = [Returned 1, Returned 1]"
    and e: "in_flight (uri api_uri) (step (Call api_uri) ?cached) = 0"
    using second one by (simp_all add: in_flight_def del: step.simps)
  from miss a b c hit d e show ?thesis by blast
qed

text \<open>
  Claim C2 as stated fails: two calls for the same uncached Uri have two resolution
  attempts in flight.
\<close>

theorem loadWeb3Api_single_flight_counterexample:
  "\<not> in_flight (uri api_uri) (run [Call api_uri, Call api_uri] idle) \<le> 1"
  by (simp add: in_flight_def run_def idle_def fresh_client_def)




lemma cache_step_kept:
  "apiCache (client s) k = Some h \<Longrightarrow> \<exists>h'. apiCache (client (step e s)) k = Some h'"
  by (cases e)
     (auto simp: loadWeb3Api_resume_def split: option.splits sum.splits task.splits)

lemma cache_run_kept:
  "apiCache (client s) k = Some h \<Longrightarrow> \<exists>h'. apiCache (client (run events s)) k = Some h'"
proof (induction events arbitrary: s h)
  case Nil
  then show ?case by (simp add: run_Nil)
next
  case (Cons e events)
  from cache_step_kept [OF Cons.prems] obtain h' where "apiCache (client (step e s)) k = Some h'"
    by blast
  from Cons.IH [OF this] show ?case by (simp add: run_Cons)
qed

lemma in_flight_zero: "(in_flight k s = 0) = (\<forall>t \<in> set (tasks s). \<not> awaits k t)"
  by (auto simp: in_flight_def filter_empty_conv)

lemma in_flight_update:
  assumes "in_flight k s = 0" and "\<not> awaits k t'"
  shows "in_flight k (s\<lparr>client := c, tasks := (tasks s)[i := t']\<rparr>) = 0"
proof -
  have "set ((tasks s)[i := t']) \<subseteq> insert t' (set (tasks s))"
    by (rule set_update_subset_insert)
  with assms show ?thesis by (auto simp: in_flight_zero)
qed

lemma cache_step_stable:
  assumes "apiCache (client s) k = Some h" and "in_flight k s = 0"
  shows "apiCache (client (step e s)) k = Some h \<and> in_flight k (step e s) = 0"
proof (cases e)
  case (Call u)
  with assms show ?thesis by (auto simp: in_flight_zero split: option.splits)
next
  case (Settle i settled)
  show ?thesis
  proof (cases "i < length (tasks s)")
    case False
    with Settle assms show ?thesis by simp
  next
    case True
    then have mem: "tasks s ! i \<in> set (tasks s)" by simp
    show ?thesis
    proof (cases "tasks s ! i")
      case (Awaiting u)
      with mem assms(2) have ne: "uri u \<noteq> k" by (force simp: in_flight_zero)
      obtain r c where res: "loadWeb3Api_resume u settled (client s) = (r, c)"
        by (cases "loadWeb3Api_resume u settled (client s)")
      with ne assms(1) have c: "apiCache c k = Some h"
        by (auto simp: loadWeb3Api_resume_def split: sum.splits option.splits)
      show ?thesis
      proof (cases r)
        case (Inl err)
        with Settle True Awaiting res c
          in_flight_update [OF assms(2), where t' = "Threw err" and c = c and i = i]
        show ?thesis by simp
      next
        case (Inr api)
        with Settle True Awaiting res c
          in_flight_update [OF assms(2), where t' = "Returned api" and c = c and i = i]
        show ?thesis by simp
      qed
    next
      case (Returned api)
      with Settle True assms show ?thesis by simp
    next
      case (Threw e)
      with Settle True assms show ?thesis by simp
    qed
  qed
qed

lemma cache_run_stable:
  "apiCache (client s) k = Some h \<Longrightarrow> in_flight k s = 0 \<Longrightarrow>
   apiCache (client (run events s)) k = Some h"
proof (induction events arbitrary: s)
  case Nil
  then show ?case by (simp add: run_Nil)
next
  case (Cons e events)
  from cache_step_stable [OF Cons.prems, of e] Cons.IH show ?case by (simp add: run_Cons)
qed

lemma cached_entry_kept:
  assumes "apiCache (client s) (uri u) = Some h"
  shows "loadWeb3Api resolveUri u (client s) = (Inr h, client s) \<and>
         step (Call u) s = s\<lparr>tasks := tasks s @ [Returned h]\<rparr> \<and>
         (\<exists>h'. apiCache (client (run events s)) (uri u) = Some h') \<and>
         (in_flight (uri u) s = 0 \<longrightarrow> apiCache (client (run events s)) (uri u) = Some h)"
  using assms cache_run_kept [OF assms, of events] cache_run_stable [OF assms, of events]
  by (simp add: loadWeb3Api_def)

text \<open>
  Claim C7, as amended. When the resolution of a pending call succeeds, the handle is
  stored under the Uri's string and returned. From then on, whatever calls and
  settlings follow, the key stays cached, and a \<open>loadWeb3Api\<close> call for the Uri returns
  the handle cached at that moment without calling \<open>resolveUri\<close>, without starting an
  attempt and without changing the client. That handle is the one first stored when no
  other resolution attempt for the key was in flight at the time it was stored; an
  attempt started before replaces it when it succeeds.
\<close>

theorem loadWeb3Api_cached_handle:
  assumes "i < length (tasks s)" and "tasks s ! i = Awaiting u"
    and "s' = step (Settle i (Inr (Some h))) s" and "t = run events s'"
  shows "apiCache (client s') (uri u) = Some h \<and>
         tasks s' ! i = Returned h \<and>
         (\<exists>h'. apiCache (client t) (uri u) = Some h' \<and>
               loadWeb3Api resolveUri u (client t) = (Inr h', client t) \<and>
               step (Call u) t = t\<lparr>tasks := tasks t @ [Returned h']\<rparr> \<and>
               (in_flight (uri u) s' = 0 \<longrightarrow> h' = h))"
proof -
  have stored: "apiCache (client s') (uri u) = Some h"
    unfolding assms(3) step_Settle_success [OF assms(1,2)] by simp
  have returned: "tasks s' ! i = Returned h"
    unfolding assms(3) step_Settle_awaiting [OF assms(1,2)] using assms(1)
    by (simp add: observed_def)
  from cache_run_kept [OF stored, of events] obtain h'
    where later: "apiCache (client t) (uri u) = Some h'"
    unfolding assms(4) by blast
  from cached_entry_kept [OF later, of resolveUri "[]"]
  have load: "loadWeb3Api resolveUri u (client t) = (Inr h', client t)"
    and call: "step (Call u) t = t\<lparr>tasks := tasks t @ [Returned h']\<rparr>"
    by simp_all
  have same: "h' = h" if "in_flight (uri u) s' = 0"
    using cache_run_stable [OF stored that, of events] later unfolding assms(4) by simp
  show ?thesis
  proof (intro conjI)
    show "apiCache (client s') (uri u) = Some h" by (rule stored)
    show "tasks s' ! i = Returned h" by (rule returned)
    show "\<exists>h'. apiCache (client t) (uri u) = Some h' \<and>
               loadWeb3Api resolveUri u (client t) = (Inr h', client t) \<and>
               step (Call u) t = t\<lparr>tasks := tasks t @ [Returned h']\<rparr> \<and>
               (in_flight (uri u) s' = 0 \<longrightarrow> h' = h)"
    proof (intro exI conjI impI)
      show "apiCache (client t) (uri u) = Some h'" by (rule later)
      show "loadWeb3Api resolveUri u (client t) = (Inr h', client t)" by (rule load)
      show "step (Call u) t = t\<lparr>tasks := tasks t @ [Returned h']\<rparr>" by (rule call)
      show "h' = h" if "in_flight (uri u) s' = 0" using that by (rule same)
    qed
  qed
qed

text \<open>The amended claim C7 after one successful load, followed by a second call and a
  settling that finds nothing pending.\<close>

theorem loadWeb3Api_cached_handle_witness:
  "tasks (run [Call api_uri] idle) ! 0 = Awaiting api_uri \<and>
   apiCache (client (step (Settle 0 (Inr (Some 1))) (run [Call api_uri] idle))) (uri api_uri) =
     Some 1 \<and>
   in_flight (uri api_uri) (step (Settle 0 (Inr (Some 1))) (run [Call api_uri] idle)) = 0 \<and>
   apiCache (client (run [Call api_uri, Settle 1 (Inr (Some 2))]
                       (step (Settle 0 (Inr (Some 1))) (run [Call api_uri] idle)))) (uri api_uri) =
     Some 1 \<and>
   tasks (step (Call api_uri)
            (run [Call api_uri, Settle 1 (Inr (Some 2))]
               (step (Settle 0 (Inr (Some 1))) (run [Call api_uri] idle)))) =
     [Returned 1, Returned 1, Returned 1]"
proof -
  let ?s = "run [Call api_uri] idle"
  let ?s' = "step (Settle 0 (Inr (Some 1))) ?s"
  let ?t = "run [Call api_uri, Settle 1 (Inr (Some 2))] ?s'"
  have ts: "tasks ?s = [Awaiting api_uri]"
    by (simp add: run_def idle_def fresh_client_def)
  then have h1: "0 < length (tasks ?s)" and h2: "tasks ?s ! 0 = Awaiting api_uri"
    by simp_all
  have ts': "tasks ?s' = [Returned 1]"
    using ts by (simp add: loadWeb3Api_resume_def)
  then have quiet: "in_flight (uri api_uri) ?s' = 0"
    by (simp add: in_flight_def del: step.simps)
  have tt: "tasks ?t = [Returned 1, Returned 1]"
    by (simp add: run_def idle_def fresh_client_def loadWeb3Api_resume_def)
  from loadWeb3Api_cached_handle [OF h1 h2 refl refl, of 1 "[Call api_uri, Settle 1 (Inr (Some 2))]"]
  obtain h' where stored: "apiCache (client ?s') (uri api_uri) = Some 1"
    and later: "apiCache (client ?t) (uri api_uri) = Some h'"
    and call: "step (Call api_uri) ?t = ?t\<lparr>tasks := tasks ?t @ [Returned h']\<rparr>"
    and same: "in_flight (uri api_uri) ?s' = 0 \<longrightarrow> h' = 1"
    by blast
  from same quiet have "h' = 1" by blast
  with later call tt have "apiCache (client ?t) (uri api_uri) = Some 1"
    and "tasks (step (Call api_uri) ?t) = [Returned 1, Returned 1, Returned 1]"
    by simp_all
  with h2 stored quiet show ?thesis by blast
qed

text \<open>
  Claim C7 as stated fails: of two overlapping calls, the first to succeed stores its
  handle and the second replaces it.
\<close>

theorem loadWeb3Api_first_handle_counterexample:
  "apiCache (client (run [Call api_uri, Call api_uri, Settle 0 (Inr (Some 1))] idle)) (uri api_uri) =
     Some 1 \<and>
   apiCache (client (run [Call api_uri, Call api_uri, Settle 0 (Inr (Some 1)),
                          Settle 1 (Inr (Some 2))] idle)) (uri api_uri) \<noteq> Some 1"
  by (simp add: run_def idle_def fresh_client_def loadWeb3Api_resume_def api_uri_def)

section \<open>Properties of query\<close>

lemma makeRepeatedUnique_reduce_length:
  "length (makeRepeatedUnique_reduce counts acc names) = length acc + length names"
  by (induction names arbitrary: counts acc) (auto simp: Let_def)

lemma makeRepeatedUnique_length: "length (makeRepeatedUnique names) = length names"
  by (simp add: makeRepeatedUnique_def makeRepeatedUnique_reduce_length)

lemma makeRepeatedUnique_reduce_distinct:
  "distinct names \<Longrightarrow> \<forall>n \<in> set names. counts n = None \<Longrightarrow>
   makeRepeatedUnique_reduce counts acc names = acc @ names"
proof (induction names arbitrary: counts acc)
  case Nil
  show ?case by simp
next
  case (Cons name names)
  from Cons.prems have rest: "distinct names" "\<forall>n \<in> set names. counts n = None"
    by simp_all
  show ?case
  proof (cases "name \<in> set object_prototype_names")
    case True
    with Cons.IH [OF rest, of "acc @ [name]"] show ?thesis by simp
  next
    case False
    from Cons.prems have "\<forall>n \<in> set names. (counts(name \<mapsto> 1)) n = None"
      by auto
    with rest have "makeRepeatedUnique_reduce (counts(name \<mapsto> 1)) (acc @ [name]) names =
        (acc @ [name]) @ names"
      by (intro Cons.IH) simp_all
    with Cons.prems False show ?thesis by (simp add: Let_def)
  qed
qed

lemma makeRepeatedUnique_distinct: "distinct names \<Longrightarrow> makeRepeatedUnique names = names"
  by (simp add: makeRepeatedUnique_def makeRepeatedUnique_reduce_distinct)

lemma makeRepeatedUnique_prototype_name:
  "name \<in> set object_prototype_names \<Longrightarrow>
   makeRepeatedUnique (replicate n name) = replicate n name"
proof -
  assume p: "name \<in> set object_prototype_names"
  have "makeRepeatedUnique_reduce counts acc (replicate n name) = acc @ replicate n name"
    for counts acc
    using p by (induction n arbitrary: acc) (simp_all add: replicate_app_Cons_same)
  then show ?thesis by (simp add: makeRepeatedUnique_def)
qed

lemma collect_eq:
  "collect invocations (methods, resultDatas, errs) =
     (methods @ map fst invocations,
      resultDatas @ map (\<lambda>p. data (snd p)) invocations,
      errs @ List.map_filter (\<lambda>p. error (snd p)) invocations)"
  by (induction invocations arbitrary: methods resultDatas errs)
     (auto simp: map_filter_simps split: option.splits)

lemma build_data_distinct:
  "length methods = length resultDatas \<Longrightarrow> distinct (map fst obj @ drop i methods) \<Longrightarrow>
   build_data i methods resultDatas obj =
     obj @ filter (\<lambda>p. fst p \<noteq> ''__proto__'') (drop i (zip methods resultDatas))"
proof (induction i methods resultDatas obj rule: build_data.induct)
  case (1 i methods resultDatas obj)
  show ?case
  proof (cases "i < length methods")
    case False
    then show ?thesis by (simp add: build_data.simps)
  next
    case True
    let ?k = "methods ! i" and ?v = "resultDatas ! i"
    from True have dm: "drop i methods = ?k # drop (Suc i) methods"
      by (simp add: Cons_nth_drop_Suc)
    from True "1.prems"(1) have "i < length (zip methods resultDatas)" by simp
    from Cons_nth_drop_Suc [OF this] True "1.prems"(1)
    have dz: "drop i (zip methods resultDatas) =
                (?k, ?v) # drop (Suc i) (zip methods resultDatas)"
      by simp
    from "1.prems"(2) dm have notin: "?k \<notin> fst ` set obj"
      and d': "distinct (map fst obj @ [?k] @ drop (Suc i) methods)"
      by auto
    have upd: "AList.update ?k ?v obj = obj @ [(?k, ?v)]"
      using notin by (induction obj) auto
    show ?thesis
    proof (cases "?k = ''__proto__''")
      case proto: True
      have "build_data i methods resultDatas obj = build_data (i + 1) methods resultDatas obj"
        using True proto by (subst build_data.simps) simp
      also have "\<dots> = obj @ filter (\<lambda>p. fst p \<noteq> ''__proto__'')
                               (drop (i + 1) (zip methods resultDatas))"
        using "1.IH" [OF True "1.prems"(1)] proto d' by simp
      finally show ?thesis using dz proto by simp
    next
      case other: False
      have "build_data i methods resultDatas obj =
            build_data (i + 1) methods resultDatas (AList.update ?k ?v obj)"
        using True "1.prems"(1) other by (subst build_data.simps) simp
      also have "\<dots> = AList.update ?k ?v obj @
                         filter (\<lambda>p. fst p \<noteq> ''__proto__'')
                           (drop (i + 1) (zip methods resultDatas))"
        using "1.IH" [OF True "1.prems"(1)] True "1.prems"(1) d' upd other by simp
      finally show ?thesis using upd dz other by simp
    qed
  qed
qed

lemma aggregate_distinct_keys:
  assumes "distinct (makeRepeatedUnique (map fst invocations))"
  shows "aggregate invocations =
     \<lparr>query_data = Some (filter (\<lambda>p. fst p \<noteq> ''__proto__'')
                            (zip (makeRepeatedUnique (map fst invocations))
                                 (map (\<lambda>p. data (snd p)) invocations))),
      errors = (if List.map_filter (\<lambda>p. error (snd p)) invocations = [] then None
                else Some (List.map_filter (\<lambda>p. error (snd p)) invocations))\<rparr>"
  using assms
  by (simp add: aggregate_def collect_eq build_data_distinct makeRepeatedUnique_length)

lemma aggregate_partial_failure:
  assumes "op1 \<noteq> op2" and "op1 \<noteq> ''__proto__''" and "op2 \<noteq> ''__proto__''"
  shows "aggregate [(op1, \<lparr>data = Some V, error = None\<rparr>), (op2, \<lparr>data = None, error = Some E\<rparr>)] =
     \<lparr>query_data = Some [(op1, Some V), (op2, None)], errors = Some [E]\<rparr>"
  using assms
  by (subst aggregate_distinct_keys) (simp_all add: makeRepeatedUnique_distinct map_filter_simps)

lemma query_never_raises: "\<exists>result. query parseQuery settled options = Inr result"
  by (auto simp: query_def try_catch_def split: sum.splits)

lemma query_parse_failure:
  "parseQuery options = Inl e \<Longrightarrow>
   query parseQuery settled options =
     Inr \<lparr>query_data = None,
          errors = Some (if has_length e then array_items e else [e])\<rparr>"
  by (simp add: query_def try_catch_def)

lemma query_parsed:
  "parseQuery options = Inr invokeOptions \<Longrightarrow>
   query parseQuery settled options =
     Inr (aggregate (map (\<lambda>(i, invocation).
                            (invoke_method invocation, settled i (invocation\<lparr>decode := True\<rparr>)))
                         (enumerate 0 invokeOptions)))"
  by (simp add: query_def try_catch_def)

lemma keys_aba: "makeRepeatedUnique [''a'', ''b'', ''a''] = [''a'', ''b'', ''a_1'']"
  by (simp add: makeRepeatedUnique_def object_prototype_names_def string_of_nat.simps digit_char_def)

lemma keys_aa1: "makeRepeatedUnique [''a'', ''a'', ''a_1''] = [''a'', ''a_1'', ''a_1'']"
  by (simp add: makeRepeatedUnique_def object_prototype_names_def string_of_nat.simps digit_char_def)

text \<open>A name inherited from \<open>Object.prototype\<close> gets no suffix when it is repeated.\<close>

lemma keys_constructor:
  "makeRepeatedUnique [''constructor'', ''constructor''] = [''constructor'', ''constructor'']"
  by (simp add: makeRepeatedUnique_def object_prototype_names_def)

text \<open>
  Claim C4. The names \<open>[a, b, a]\<close> give the keys \<open>[a, b, a_1]\<close>; but the names
  \<open>[a, a, a_1]\<close> give \<open>[a, a_1, a_1]\<close>, and the value of the second operation is
  overwritten by that of the third.
\<close>

theorem makeRepeatedUnique_collision:
  "makeRepeatedUnique [''a'', ''b'', ''a''] = [''a'', ''b'', ''a_1''] \<and>
   makeRepeatedUnique [''a'', ''a'', ''a_1''] = [''a'', ''a_1'', ''a_1''] \<and>
   query_data (aggregate [(''a'', \<lparr>data = Some (1::nat), error = None\<rparr>),
                          (''a'', \<lparr>data = Some 2, error = None\<rparr>),
                          (''a_1'', \<lparr>data = Some 3, error = None\<rparr>)]) =
     Some [(''a'', Some 1), (''a_1'', Some 3)]"
  by (simp add: aggregate_def keys_aba keys_aa1 build_data.simps)

text \<open>
  Claim C5. With the operations \<open>a\<close>, \<open>a\<close> and \<open>a_1\<close>, the third failing, the error is
  reported but the value of the second operation is lost: its key holds the
  \<open>undefined\<close> of the failed one.
\<close>

theorem aggregate_failure_overwrites_sibling:
  "aggregate [(''a'', \<lparr>data = Some (1::nat), error = None\<rparr>),
              (''a'', \<lparr>data = Some 2, error = None\<rparr>),
              (''a_1'', \<lparr>data = None, error = Some (Error ''E'')\<rparr>)] =
     \<lparr>query_data = Some [(''a'', Some 1), (''a_1'', None)], errors = Some [Error ''E'']\<rparr>"
  by (simp add: aggregate_def keys_aa1 build_data.simps)

section \<open>Properties of the guarded resolution\<close>

lemma resolveUri_guarded_cycle:
  assumes "\<forall>u \<in> S. \<exists>r t'. find (\<lambda>r. Uri_equals (from_uri r) u) table = Some r \<and>
                          target r = AliasTo t' \<and> t' \<in> S"
    and "t \<in> S"
  shows "resolveUri_guarded table delegated visited t = Inl ResolutionCycle"
  using assms
proof (induction table delegated visited t rule: resolveUri_guarded.induct)
  case (1 table delegated visited t)
  from "1.prems" obtain r t' where
    r: "find (\<lambda>r. Uri_equals (from_uri r) t) table = Some r" "target r = AliasTo t'" "t' \<in> S"
    by blast
  show ?case
  proof (cases "uri t \<in> set visited")
    case True
    then show ?thesis by (simp add: resolveUri_guarded.simps)
  next
    case False
    with r "1.IH" [OF False r(1) r(2) "1.prems"(1) r(3)] show ?thesis
      by (subst resolveUri_guarded.simps) simp
  qed
qed

lemma resolveUri_direct_plugin:
  assumes "find (\<lambda>r. Uri_equals (from_uri r) t) table = Some r" and "target r = Binding package"
  shows "resolveUri_spec table delegated t = Inr (PluginHandle t (factory package))"
  using assms by (simp add: resolveUri_spec_def resolveUri_guarded.simps)

lemma resolveUri_no_match:
  assumes "find (\<lambda>r. Uri_equals (from_uri r) t) table = None"
  shows "resolveUri_spec table delegated t = delegated t"
  using assms by (simp add: resolveUri_spec_def resolveUri_guarded.simps)

text \<open>
  Claim C8. The resolution is a total function, so it always returns. When the target
  lies in a set of Uris each of which the table aliases to a Uri of the set again (a
  cycle of aliases, such as \<open>A\<close> to \<open>B\<close> and \<open>B\<close> to \<open>A\<close>), it returns
  \<open>ResolutionCycle\<close>.
\<close>

theorem resolveUri_alias_cycle:
  assumes "\<forall>u \<in> S. \<exists>r t'. find (\<lambda>r. Uri_equals (from_uri r) u) table = Some r \<and>
                          target r = AliasTo t' \<and> t' \<in> S"
    and "t \<in> S"
  shows "resolveUri_spec table delegated t = Inl ResolutionCycle"
  unfolding resolveUri_spec_def using assms by (rule resolveUri_guarded_cycle)

text \<open>Claim C8 on the table in which \<open>A\<close> aliases to \<open>B\<close> and \<open>B\<close> to \<open>A\<close>.\<close>

theorem resolveUri_alias_cycle_witness:
  "resolveUri_spec cyclic_table no_resolvers \<lparr>uri = ''w3://ens/a.eth''\<rparr> = Inl ResolutionCycle \<and>
   resolveUri_spec cyclic_table no_resolvers \<lparr>uri = ''w3://ens/b.eth''\<rparr> = Inl ResolutionCycle"
proof -
  let ?S = "{\<lparr>uri = ''w3://ens/a.eth''\<rparr>, \<lparr>uri = ''w3://ens/b.eth''\<rparr>}"
  have closed: "\<forall>u \<in> ?S. \<exists>r t'. find (\<lambda>r. Uri_equals (from_uri r) u) cyclic_table = Some r \<and>
                          target r = AliasTo t' \<and> t' \<in> ?S"
    by (simp add: cyclic_table_def Uri_equals_def)
  have "\<lparr>uri = ''w3://ens/a.eth''\<rparr> \<in> ?S" and "\<lparr>uri = ''w3://ens/b.eth''\<rparr> \<in> ?S" by simp_all
  from this [THEN resolveUri_alias_cycle [OF closed]] show ?thesis by simp
qed

end
